theory Spec2Isabelle
  imports Main "HOL-Library.Word"
begin

section \<open>Exceptions\<close>

text \<open>
  The exceptions that the two programs of the repository can end with. None of them is
  caught anywhere in the source, so an exception ends the run.
\<close>

datatype error =
    TypeError           \<comment> \<open>\<open>re.match\<close> on a subject that is not a \<open>str\<close>; \<open>None[0]\<close>\<close>
  | EOFError            \<comment> \<open>\<open>input()\<close> at the end of standard input\<close>
  | FileNotFoundError   \<comment> \<open>\<open>open(path, 'rb')\<close> on a missing file\<close>
  | PermissionError     \<comment> \<open>\<open>open(path, 'wb')\<close> on a path that cannot be written\<close>
  | DatabaseError       \<comment> \<open>\<open>mysql.connector.connect\<close> cannot reach or log into the server\<close>
  | IntegrityError      \<comment> \<open>\<open>INSERT\<close> of a duplicate under a unique key\<close>
  | InternalError       \<comment> \<open>\<open>cursor.close()\<close> while rows of the result are unread\<close>
  | UnicodeEncodeError  \<comment> \<open>\<open>print\<close> of a character that standard output cannot encode\<close>

section \<open>Characters and strings\<close>

text \<open>
  A Python \<open>str\<close> is modelled as a \<open>string\<close>: a list of characters with code points
  below 256. Every character that the patterns of the validator accept is ASCII, so a
  character outside this range could only ever be rejected by them. A later section
  takes a \<open>str\<close> as the list of its code points, of any size.
\<close>

definition code :: "char \<Rightarrow> nat" where
  "code c = of_char c"

definition newline :: char where
  "newline = CHR 0x0A"

text \<open>
  \<open>to_lower\<close> is the simple lower-case mapping on code points below 256 that the
  \<open>re\<close> module applies under \<open>re.IGNORECASE\<close>: \<open>A\<close>..\<open>Z\<close> and the
  Latin-1 capitals \<open>0xC0\<close>..\<open>0xDE\<close> (without the multiplication sign \<open>0xD7\<close>) move
  up by 32.
\<close>

definition to_lower :: "char \<Rightarrow> char" where
  "to_lower c =
     (if (65 \<le> code c \<and> code c \<le> 90) \<or> (192 \<le> code c \<and> code c \<le> 222 \<and> code c \<noteq> 215)
      then char_of (code c + 32) else c)"



section \<open>The fragment of \<open>re\<close> that the validator uses\<close>

text \<open>
  The two patterns of the source are built from: the anchors \<open>^\<close> and \<open>$\<close>, literal
  characters, and character classes under \<open>+\<close> or \<open>{2,}\<close>. A class is a list of
  ranges and single characters, as it is written between the brackets.
\<close>

datatype cset = Range char char | Single char

datatype item =
    Bol                       \<comment> \<open>\<open>^\<close>\<close>
  | Eol                       \<comment> \<open>\<open>$\<close>\<close>
  | Lit char                  \<comment> \<open>a literal character, also an escaped one as \<open>\.\<close>\<close>
  | AtLeast nat "cset list"   \<comment> \<open>\<open>[...]+\<close> is \<open>AtLeast 1\<close>, \<open>[...]{2,}\<close> is \<open>AtLeast 2\<close>\<close>

fun in_cset :: "cset \<Rightarrow> char \<Rightarrow> bool" where
  "in_cset (Range lo hi) c = (code lo \<le> code c \<and> code c \<le> code hi)"
| "in_cset (Single x) c = (c = x)"

definition in_class :: "cset list \<Rightarrow> char \<Rightarrow> bool" where
  "in_class cls c = list_ex (\<lambda>i. in_cset i c) cls"

text \<open>
  \<open>lit_eq ic x c\<close>: the literal \<open>x\<close> of the pattern matches the character \<open>c\<close> of the
  subject; with the flag \<open>ic\<close> (\<open>re.IGNORECASE\<close>) the comparison is made on the
  lower-case forms.
\<close>

definition lit_eq :: "bool \<Rightarrow> char \<Rightarrow> char \<Rightarrow> bool" where
  "lit_eq ic x c = (if ic then to_lower c = to_lower x else c = x)"

text \<open>
  \<open>match_here ic p pos rest\<close>: the pattern \<open>p\<close> matches at position \<open>pos\<close> of the
  subject, where \<open>rest\<close> is the subject from \<open>pos\<close> on. The matcher backtracks as
  \<open>re\<close> does: a repetition tries the longest run first and gives characters back one by
  one, down to its minimum.

  \<^item> \<open>^\<close> (without \<open>re.MULTILINE\<close>) matches at position 0 only.
  \<^item> \<open>$\<close> (without \<open>re.MULTILINE\<close>) matches at the end of the subject and also just
    before a newline that is the subject's last character.
  \<^item> A pattern that is used up has matched: nothing requires the subject to be used up.
\<close>

fun match_here :: "bool \<Rightarrow> item list \<Rightarrow> nat \<Rightarrow> string \<Rightarrow> bool" where
  "match_here ic [] pos rest = True"
| "match_here ic (Bol # p) pos rest = (pos = 0 \<and> match_here ic p pos rest)"
| "match_here ic (Eol # p) pos rest =
     ((rest = [] \<or> rest = [newline]) \<and> match_here ic p pos rest)"
| "match_here ic (Lit x # p) pos rest =
     (case rest of
        [] \<Rightarrow> False
      | c # cs \<Rightarrow> lit_eq ic x c \<and> match_here ic p (pos + 1) cs)"
| "match_here ic (AtLeast n cls # p) pos rest =
     list_ex (\<lambda>k. match_here ic p (pos + k) (drop k rest))
       (rev [n ..< length (takeWhile (in_class cls) rest) + 1])"

text \<open>\<open>re.match\<close> tries the pattern at position 0 only.\<close>

definition re_match :: "item list \<Rightarrow> string \<Rightarrow> bool \<Rightarrow> bool" where
  "re_match p s ic = match_here ic p 0 s"

text \<open>\<open>re.search\<close> tries the pattern at every position, from the left.\<close>

definition re_search :: "item list \<Rightarrow> string \<Rightarrow> bool \<Rightarrow> bool" where
  "re_search p s ic = list_ex (\<lambda>i. match_here ic p i (drop i s)) [0 ..< length s + 1]"

section \<open>The email validator\<close>

text \<open>\<^verbatim>\<open>email_pattern = r'^[a-zA-Z0-9._%+-]+@[a-zA-Z0-9.-]+\.[a-zA-Z]{2,}$'\<close>\<close>

definition local_class :: "cset list" where
  "local_class =
     [Range CHR ''a'' CHR ''z'', Range CHR ''A'' CHR ''Z'', Range CHR ''0'' CHR ''9'',
      Single CHR ''.'', Single CHR ''_'', Single CHR ''%'', Single CHR ''+'', Single CHR ''-'']"

definition domain_class :: "cset list" where
  "domain_class =
     [Range CHR ''a'' CHR ''z'', Range CHR ''A'' CHR ''Z'', Range CHR ''0'' CHR ''9'',
      Single CHR ''.'', Single CHR ''-'']"

definition alpha_class :: "cset list" where
  "alpha_class = [Range CHR ''a'' CHR ''z'', Range CHR ''A'' CHR ''Z'']"

definition email_pattern :: "item list" where
  "email_pattern =
     [Bol, AtLeast 1 local_class, Lit CHR ''@'', AtLeast 1 domain_class,
      Lit CHR ''.'', AtLeast 2 alpha_class, Eol]"

text \<open>\<^verbatim>\<open>edu_pattern = r'\.edu$'\<close>\<close>

definition edu_pattern :: "item list" where
  "edu_pattern = [Lit CHR ''.'', Lit CHR ''e'', Lit CHR ''d'', Lit CHR ''u'', Eol]"

text \<open>
  Python does not type the parameter \<open>email\<close>. \<open>PyStr s\<close> is the \<open>str\<close> \<open>s\<close>;
  \<open>PyOther\<close> is any object that is not a \<open>str\<close> (\<open>None\<close>, \<open>bytes\<close>, a number),
  on which \<open>re.match\<close> with a \<open>str\<close> pattern raises \<open>TypeError\<close>.
\<close>

datatype pyval = PyStr string | PyOther

text \<open>
  \<open>validate_edu_email\<close> returns a boolean and prints one line on every path. The model
  returns both: the boolean and the text handed to \<open>print\<close>. The function has no
  branch for the empty string: its first test is the match against \<open>email_pattern\<close>.
  Here the \<open>str\<close> has its code points below 256 and \<open>print\<close> does not raise, as on
  a UTF-8 standard output; \<open>validate_edu_email_unicode\<close> below is the function on any
  \<open>str\<close> and any standard output.
\<close>

fun validate_edu_email :: "pyval \<Rightarrow> error + bool \<times> string" where
  "validate_edu_email PyOther = Inl TypeError"
| "validate_edu_email (PyStr email) =
     (if \<not> re_match email_pattern email False then
        Inr (False, ''Invalid email format: '' @ email)
      else if \<not> re_search edu_pattern email True then
        Inr (False, ''Email does not end with .edu: '' @ email)
      else
        Inr (True, ''Valid .edu email: '' @ email))"


subsection \<open>The validator as the specification words it\<close>

text \<open>
  \<open>email_shape s\<close>: the whole of \<open>s\<close> is one or more characters of
  \<open>[a-zA-Z0-9._%+-]\<close>, then \<open>@\<close>, then one or more characters of \<open>[a-zA-Z0-9.-]\<close>,
  then a dot, then two or more letters, and nothing else.
\<close>

definition email_shape :: "string \<Rightarrow> bool" where
  "email_shape s =
     (\<exists>u d t. s = u @ [CHR ''@''] @ d @ [CHR ''.''] @ t
        \<and> 1 \<le> length u \<and> list_all (in_class local_class) u
        \<and> 1 \<le> length d \<and> list_all (in_class domain_class) d
        \<and> 2 \<le> length t \<and> list_all (in_class alpha_class) t)"

text \<open>
  \<open>ends_with_ci s suffix\<close>: the last characters of \<open>s\<close> are those of \<open>suffix\<close>, up
  to letter case.
\<close>

definition ends_with_ci :: "string \<Rightarrow> string \<Rightarrow> bool" where
  "ends_with_ci s suffix =
     (length suffix \<le> length s
      \<and> map to_lower (drop (length s - length suffix) s) = map to_lower suffix)"

section \<open>The validator on any \<open>str\<close>, with \<open>print\<close> that can fail\<close>

text \<open>
  A \<open>str\<close> is a sequence of code points, and not every code point is below 256. This
  section models the same function on a \<open>str\<close> given by its code points, and lets
  \<open>print\<close> raise. \<open>str s\<close> lists the code points of a \<open>string\<close>.
\<close>

type_synonym codepoint = nat

definition str :: "string \<Rightarrow> codepoint list" where
  "str s = map code s"

text \<open>
  The matcher of above, with a subject of code points. The patterns stay as they are.
  \<open>lower_cp\<close> is \<open>to_lower\<close> on numbers; above 255 it is left as the identity, since
  no code point there has \<open>.\<close>, \<open>e\<close>, \<open>d\<close> or \<open>u\<close>, the literals matched under
  \<open>re.IGNORECASE\<close>, as its lower-case form.
\<close>

fun in_cset_cp :: "cset \<Rightarrow> codepoint \<Rightarrow> bool" where
  "in_cset_cp (Range lo hi) c = (code lo \<le> c \<and> c \<le> code hi)"
| "in_cset_cp (Single x) c = (c = code x)"

definition in_class_cp :: "cset list \<Rightarrow> codepoint \<Rightarrow> bool" where
  "in_class_cp cls c = list_ex (\<lambda>i. in_cset_cp i c) cls"

definition lower_cp :: "codepoint \<Rightarrow> codepoint" where
  "lower_cp c =
     (if (65 \<le> c \<and> c \<le> 90) \<or> (192 \<le> c \<and> c \<le> 222 \<and> c \<noteq> 215) then c + 32 else c)"

definition lit_eq_cp :: "bool \<Rightarrow> char \<Rightarrow> codepoint \<Rightarrow> bool" where
  "lit_eq_cp ic x c = (if ic then lower_cp c = lower_cp (code x) else c = code x)"

fun match_here_cp :: "bool \<Rightarrow> item list \<Rightarrow> nat \<Rightarrow> codepoint list \<Rightarrow> bool" where
  "match_here_cp ic [] pos rest = True"
| "match_here_cp ic (Bol # p) pos rest = (pos = 0 \<and> match_here_cp ic p pos rest)"
| "match_here_cp ic (Eol # p) pos rest =
     ((rest = [] \<or> rest = [code newline]) \<and> match_here_cp ic p pos rest)"
| "match_here_cp ic (Lit x # p) pos rest =
     (case rest of
        [] \<Rightarrow> False
      | c # cs \<Rightarrow> lit_eq_cp ic x c \<and> match_here_cp ic p (pos + 1) cs)"
| "match_here_cp ic (AtLeast n cls # p) pos rest =
     list_ex (\<lambda>k. match_here_cp ic p (pos + k) (drop k rest))
       (rev [n ..< length (takeWhile (in_class_cp cls) rest) + 1])"

definition re_match_cp :: "item list \<Rightarrow> codepoint list \<Rightarrow> bool \<Rightarrow> bool" where
  "re_match_cp p s ic = match_here_cp ic p 0 s"

definition re_search_cp :: "item list \<Rightarrow> codepoint list \<Rightarrow> bool \<Rightarrow> bool" where
  "re_search_cp p s ic =
     list_ex (\<lambda>i. match_here_cp ic p i (drop i s)) [0 ..< length s + 1]"

text \<open>
  \<open>print\<close> encodes the text for standard output and raises \<open>UnicodeEncodeError\<close> at
  a character that the encoding of standard output does not have. Which encoding that
  is lies outside the source, so the set of code points that it encodes is a parameter
  (\<open>encodable\<close>). \<open>utf8\<close> is that set for UTF-8, the usual encoding: every code
  point up to \<open>0x10FFFF\<close> except the surrogates \<open>0xD800\<close>..\<open>0xDFFF\<close>, which a
  \<open>str\<close> may hold.
\<close>

definition py_print :: "(codepoint \<Rightarrow> bool) \<Rightarrow> codepoint list \<Rightarrow> error + codepoint list" where
  "py_print encodable text =
     (if list_all encodable text then Inr text else Inl UnicodeEncodeError)"

definition utf8 :: "codepoint \<Rightarrow> bool" where
  "utf8 c = (c < 0xD800 \<or> (0xDFFF < c \<and> c \<le> 0x10FFFF))"

text \<open>
  The function prints and then returns: when \<open>print\<close> raises, nothing is returned.
\<close>

definition print_return ::
  "(codepoint \<Rightarrow> bool) \<Rightarrow> codepoint list \<Rightarrow> bool \<Rightarrow> error + bool \<times> codepoint list" where
  "print_return encodable text b =
     (case py_print encodable text of
        Inl e \<Rightarrow> Inl e
      | Inr printed \<Rightarrow> Inr (b, printed))"

definition validate_edu_email_unicode ::
  "(codepoint \<Rightarrow> bool) \<Rightarrow> codepoint list \<Rightarrow> error + bool \<times> codepoint list" where
  "validate_edu_email_unicode encodable email =
     (if \<not> re_match_cp email_pattern email False then
        print_return encodable (str ''Invalid email format: '' @ email) False
      else if \<not> re_search_cp edu_pattern email True then
        print_return encodable (str ''Email does not end with .edu: '' @ email) False
      else
        print_return encodable (str ''Valid .edu email: '' @ email) True)"

section \<open>The image store\<close>

type_synonym bytes = "8 word list"

record image_row =
  image_name :: string
  image_data :: bytes

text \<open>
  What the two scripts of \<open>image_store.py\<close> act on. The declaration of the table is not
  part of the repository, so whether \<open>image_name\<close> carries a unique key is a parameter
  (\<open>unique_name\<close>); the column \<open>image_data\<close> is taken to hold any byte sequence. Names
  are compared by equality. The rows are kept in the order in which a \<open>SELECT\<close> without
  \<open>ORDER BY\<close> scans them, which is the order of insertion.
\<close>

record world =
  db_up :: bool                        \<comment> \<open>\<open>mysql.connector.connect\<close> succeeds\<close>
  unique_name :: bool                  \<comment> \<open>the table has a unique key on \<open>image_name\<close>\<close>
  image_store :: "image_row list"      \<comment> \<open>the committed rows of the table\<close>
  files :: "string \<rightharpoonup> bytes"             \<comment> \<open>the local files and their contents\<close>
  writable :: "string \<Rightarrow> bool"          \<comment> \<open>the paths that can be opened for writing\<close>
  stdout :: "string list"              \<comment> \<open>the lines printed so far\<close>

text \<open>
  \<open>cursor.fetchone()\<close> on the result of a \<open>SELECT\<close>: the first row, or \<open>None\<close> when
  the result is empty.
\<close>

fun fetchone :: "'a list \<Rightarrow> 'a option" where
  "fetchone [] = None"
| "fetchone (r # rs) = Some r"

text \<open>
  The first script: connect, read the file, \<open>INSERT\<close> one row, commit, print. The
  source fixes the path and the name (\<open>upload_script\<close> below); they are parameters here.
  The result is the exception that ended the run, if any, and the world after the run.
  The \<open>INSERT\<close> leaves no result to read, so closing the cursor raises nothing;
  committing, printing the fixed line and closing the connection are taken to succeed.
\<close>

definition store_image :: "string \<Rightarrow> string \<Rightarrow> world \<Rightarrow> error option \<times> world" where
  "store_image path name w =
     (if \<not> db_up w then (Some DatabaseError, w)
      else case files w path of
        None \<Rightarrow> (Some FileNotFoundError, w)
      | Some binary_data \<Rightarrow>
          if unique_name w \<and> list_ex (\<lambda>r. image_name r = name) (image_store w)
          then (Some IntegrityError, w)
          else (None,
                w\<lparr>image_store :=
                    image_store w @ [\<lparr>image_name = name, image_data = binary_data\<rparr>],
                  stdout := stdout w @ [''Image uploaded successfully.'']\<rparr>))"

text \<open>
  The second script: connect, \<open>SELECT image_data ... WHERE image_name = name\<close>, take
  \<open>cursor.fetchone()[0]\<close>, write it to the output file, print, close the cursor.
  Subscripting the \<open>None\<close> that \<open>fetchone\<close> returns on an empty result raises
  \<open>TypeError\<close>. \<open>fetchone\<close> reads one row only: when two or more rows match, the
  others are still unread at \<open>cursor.close()\<close>, which then raises
  \<open>InternalError\<close> (\<open>Unread result found\<close>). By then the file is written and the line
  printed.
\<close>

definition retrieve_image :: "string \<Rightarrow> string \<Rightarrow> world \<Rightarrow> error option \<times> world" where
  "retrieve_image name out w =
     (if \<not> db_up w then (Some DatabaseError, w)
      else
        let rows = filter (\<lambda>r. image_name r = name) (image_store w) in
        case fetchone rows of
          None \<Rightarrow> (Some TypeError, w)
        | Some r \<Rightarrow>
            if \<not> writable w out then (Some PermissionError, w)
            else (if 1 < length rows then Some InternalError else None,
                  w\<lparr>files := (files w)(out \<mapsto> image_data r),
                    stdout := stdout w @ [''Image retrieved and written to file.'']\<rparr>))"

definition upload_script :: "world \<Rightarrow> error option \<times> world" where
  "upload_script = store_image ''path_to_your_image.jpg'' ''example.jpg''"

definition retrieve_script :: "world \<Rightarrow> error option \<times> world" where
  "retrieve_script = retrieve_image ''example.jpg'' ''retrieved_image.jpg''"

subsection \<open>Concrete worlds\<close>

text \<open>A reachable server whose table is empty, and no local file.\<close>

definition empty_store :: world where
  "empty_store =
     \<lparr>db_up = True, unique_name = False, image_store = [], files = Map.empty,
      writable = (\<lambda>p. True), stdout = []\<rparr>"

text \<open>The same with the image file of the first script in place.\<close>

definition fresh_store :: world where
  "fresh_store = empty_store\<lparr>files := [''path_to_your_image.jpg'' \<mapsto> [0xFF, 0xD8, 0xFF]]\<rparr>"

text \<open>
  A table without a unique key that already holds a row named \<open>example.jpg\<close>, with
  other bytes than the image file.
\<close>

definition stale_store :: world where
  "stale_store =
     \<lparr>db_up = True, unique_name = False,
      image_store = [\<lparr>image_name = ''example.jpg'', image_data = [1]\<rparr>],
      files = [''path_to_your_image.jpg'' \<mapsto> [2]],
      writable = (\<lambda>p. True), stdout = []\<rparr>"

section \<open>What the matcher accepts\<close>

lemma le_length_takeWhile:
  "k \<le> length (takeWhile P xs) \<longleftrightarrow> k \<le> length xs \<and> list_all P (take k xs)"
proof (induction xs arbitrary: k)
  case Nil
  then show ?case by simp
next
  case (Cons x xs)
  then show ?case by (cases k) auto
qed

lemma list_ex_upt:
  "list_ex Q [n ..< m + 1] \<longleftrightarrow> (\<exists>k. n \<le> k \<and> k \<le> m \<and> Q k)"
  unfolding list_ex_iff set_upt by (auto simp: less_Suc_eq_le)

lemma list_ex_rev_upt:
  "list_ex Q (rev [n ..< m + 1]) \<longleftrightarrow> (\<exists>k. n \<le> k \<and> k \<le> m \<and> Q k)"
  unfolding list_ex_iff set_rev set_upt by (auto simp: less_Suc_eq_le)

text \<open>
  A repetition matches exactly when the subject splits into a run of at least \<open>n\<close>
  characters of the class and a remainder that the rest of the pattern matches.
\<close>

lemma match_here_AtLeast:
  "match_here ic (AtLeast n cls # p) pos rest \<longleftrightarrow>
     (\<exists>u v. rest = u @ v \<and> n \<le> length u \<and> list_all (in_class cls) u
        \<and> match_here ic p (pos + length u) v)"
  (is "?L \<longleftrightarrow> ?R")
proof
  assume ?L
  then have "\<exists>k. n \<le> k \<and> k \<le> length (takeWhile (in_class cls) rest)
      \<and> match_here ic p (pos + k) (drop k rest)"
    by (simp only: match_here.simps list_ex_rev_upt)
  then obtain k where k: "n \<le> k" "k \<le> length rest" "list_all (in_class cls) (take k rest)"
      "match_here ic p (pos + k) (drop k rest)"
    by (auto simp: le_length_takeWhile)
  have "rest = take k rest @ drop k rest" by simp
  moreover have "length (take k rest) = k" using k(2) by simp
  ultimately show ?R using k by metis
next
  assume ?R
  then obtain u v where uv: "rest = u @ v" "n \<le> length u" "list_all (in_class cls) u"
      "match_here ic p (pos + length u) v"
    by blast
  then have "n \<le> length u \<and> length u \<le> length (takeWhile (in_class cls) rest)
      \<and> match_here ic p (pos + length u) (drop (length u) rest)"
    by (simp add: le_length_takeWhile)
  then show ?L
    by (simp only: match_here.simps list_ex_rev_upt) blast
qed

lemma match_here_AtLeastI:
  assumes "n \<le> length u" "list_all (in_class cls) u" "match_here ic p (pos + length u) v"
  shows "match_here ic (AtLeast n cls # p) pos (u @ v)"
  unfolding match_here_AtLeast using assms by blast

lemma match_here_Lit:
  "match_here ic (Lit x # p) pos rest \<longleftrightarrow>
     (\<exists>c cs. rest = c # cs \<and> lit_eq ic x c \<and> match_here ic p (pos + 1) cs)"
  by (cases rest) auto

lemma re_search_iff:
  "re_search p s ic \<longleftrightarrow> (\<exists>pre rest. s = pre @ rest \<and> match_here ic p (length pre) rest)"
  (is "?L \<longleftrightarrow> ?R")
proof
  assume ?L
  then obtain i where i: "i \<le> length s" "match_here ic p i (drop i s)"
    unfolding re_search_def list_ex_upt by blast
  have "s = take i s @ drop i s" by simp
  moreover have "length (take i s) = i" using i(1) by simp
  ultimately show ?R using i(2) by metis
next
  assume ?R
  then obtain pre rest where "s = pre @ rest" "match_here ic p (length pre) rest" by blast
  then have "length pre \<le> length s \<and> match_here ic p (length pre) (drop (length pre) s)"
    by simp
  then show ?L
    unfolding re_search_def list_ex_upt by blast
qed

text \<open>
  \<open>re.match\<close> with \<open>email_pattern\<close> accepts the strings of the shape, each with or
  without one newline after it: \<open>$\<close> also matches before a final newline.
\<close>

lemma re_match_email_pattern:
  "re_match email_pattern s False \<longleftrightarrow>
     (\<exists>u d t z. s = u @ [CHR ''@''] @ d @ [CHR ''.''] @ t @ z
        \<and> 1 \<le> length u \<and> list_all (in_class local_class) u
        \<and> 1 \<le> length d \<and> list_all (in_class domain_class) d
        \<and> 2 \<le> length t \<and> list_all (in_class alpha_class) t
        \<and> (z = [] \<or> z = [newline]))"
  (is "?L \<longleftrightarrow> ?R")
proof -
  have unfolded: "?L \<longleftrightarrow>
     (\<exists>u v. s = u @ v \<and> 1 \<le> length u \<and> list_all (in_class local_class) u \<and>
        (\<exists>c cs. v = c # cs \<and> c = CHR ''@'' \<and>
          (\<exists>d w. cs = d @ w \<and> 1 \<le> length d \<and> list_all (in_class domain_class) d \<and>
            (\<exists>c' cs'. w = c' # cs' \<and> c' = CHR ''.'' \<and>
              (\<exists>t z. cs' = t @ z \<and> 2 \<le> length t \<and> list_all (in_class alpha_class) t \<and>
                 (z = [] \<or> z = [newline]))))))"
    unfolding re_match_def email_pattern_def
    by (simp only: match_here.simps(1,2,3) match_here_AtLeast match_here_Lit lit_eq_def
        if_False simp_thms)
  show ?thesis
  proof
    assume ?L
    then obtain u d t z where
      "s = u @ (CHR ''@'' # d @ (CHR ''.'' # t @ z))"
      "1 \<le> length u" "list_all (in_class local_class) u"
      "1 \<le> length d" "list_all (in_class domain_class) d"
      "2 \<le> length t" "list_all (in_class alpha_class) t" "z = [] \<or> z = [newline]"
      unfolding unfolded by blast
    then show ?R by (intro exI[of _ u] exI[of _ d] exI[of _ t] exI[of _ z]) simp
  next
    assume ?R
    then obtain u d t z where
      s: "s = u @ [CHR ''@''] @ d @ [CHR ''.''] @ t @ z" and
      rest: "1 \<le> length u" "list_all (in_class local_class) u"
      "1 \<le> length d" "list_all (in_class domain_class) d"
      "2 \<le> length t" "list_all (in_class alpha_class) t" "z = [] \<or> z = [newline]"
      by blast
    have 1: "match_here False [Eol] k z" for k
      using rest(7) by auto
    have 2: "match_here False [AtLeast 2 alpha_class, Eol] k (t @ z)" for k
      using rest(5,6) 1 by (rule match_here_AtLeastI)
    have 3: "match_here False [Lit CHR ''.'', AtLeast 2 alpha_class, Eol] k (CHR ''.'' # t @ z)"
      for k
      using 2 by (simp add: lit_eq_def del: match_here.simps(5))
    have 4: "match_here False [AtLeast 1 domain_class, Lit CHR ''.'', AtLeast 2 alpha_class, Eol]
        k (d @ CHR ''.'' # t @ z)" for k
      using rest(3,4) 3 by (rule match_here_AtLeastI)
    have 5: "match_here False [Lit CHR ''@'', AtLeast 1 domain_class, Lit CHR ''.'',
        AtLeast 2 alpha_class, Eol] k (CHR ''@'' # d @ CHR ''.'' # t @ z)" for k
      using 4 by (simp add: lit_eq_def del: match_here.simps(5))
    have 6: "match_here False [AtLeast 1 local_class, Lit CHR ''@'', AtLeast 1 domain_class,
        Lit CHR ''.'', AtLeast 2 alpha_class, Eol] 0 (u @ CHR ''@'' # d @ CHR ''.'' # t @ z)"
      using rest(1,2) 5 by (rule match_here_AtLeastI)
    show ?L
      unfolding re_match_def email_pattern_def using 6 s
      by (simp del: match_here.simps(5))
  qed
qed

lemma re_match_email_shape:
  "re_match email_pattern s False \<longleftrightarrow>
     email_shape s \<or> (\<exists>s'. s = s' @ [newline] \<and> email_shape s')"
  (is "?L \<longleftrightarrow> ?R")
proof
  assume ?L
  then obtain u d t z where
    s: "s = u @ [CHR ''@''] @ d @ [CHR ''.''] @ t @ z" and
    parts: "1 \<le> length u" "list_all (in_class local_class) u"
    "1 \<le> length d" "list_all (in_class domain_class) d"
    "2 \<le> length t" "list_all (in_class alpha_class) t" and
    z: "z = [] \<or> z = [newline]"
    unfolding re_match_email_pattern by blast
  have shape: "email_shape (u @ [CHR ''@''] @ d @ [CHR ''.''] @ t)"
    unfolding email_shape_def using parts by blast
  from z show ?R
  proof
    assume "z = []"
    with s shape show ?R by simp
  next
    assume "z = [newline]"
    with s have "s = (u @ [CHR ''@''] @ d @ [CHR ''.''] @ t) @ [newline]" by simp
    with shape show ?R by blast
  qed
next
  assume ?R
  then show ?L
  proof
    assume "email_shape s"
    then obtain u d t where
      "s = u @ [CHR ''@''] @ d @ [CHR ''.''] @ t @ []"
      "1 \<le> length u" "list_all (in_class local_class) u"
      "1 \<le> length d" "list_all (in_class domain_class) d"
      "2 \<le> length t" "list_all (in_class alpha_class) t"
      unfolding email_shape_def by auto
    then show ?L unfolding re_match_email_pattern by blast
  next
    assume "\<exists>s'. s = s' @ [newline] \<and> email_shape s'"
    then obtain u d t where
      "s = u @ [CHR ''@''] @ d @ [CHR ''.''] @ t @ [newline]"
      "1 \<le> length u" "list_all (in_class local_class) u"
      "1 \<le> length d" "list_all (in_class domain_class) d"
      "2 \<le> length t" "list_all (in_class alpha_class) t"
      unfolding email_shape_def by auto
    then show ?L unfolding re_match_email_pattern by blast
  qed
qed

lemma ends_with_ci_iff:
  "ends_with_ci s suffix \<longleftrightarrow> (\<exists>pre tl. s = pre @ tl \<and> map to_lower tl = map to_lower suffix)"
  (is "?L \<longleftrightarrow> ?R")
proof
  assume ?L
  then have "s = take (length s - length suffix) s @ drop (length s - length suffix) s
      \<and> map to_lower (drop (length s - length suffix) s) = map to_lower suffix"
    by (simp add: ends_with_ci_def)
  then show ?R by blast
next
  assume ?R
  then obtain pre tl where s: "s = pre @ tl" and tl: "map to_lower tl = map to_lower suffix"
    by blast
  from tl have "length tl = length suffix" by (metis length_map)
  with s tl show ?L by (simp add: ends_with_ci_def)
qed

text \<open>
  \<open>re.search\<close> with \<open>edu_pattern\<close> under \<open>re.IGNORECASE\<close> accepts the strings that end
  with \<open>.edu\<close> in any letter case, each with or without one newline after it.
\<close>

lemma re_search_edu_pattern:
  "re_search edu_pattern s True \<longleftrightarrow>
     (\<exists>pre tl z. s = pre @ tl @ z \<and> map to_lower tl = map to_lower ''.edu''
        \<and> (z = [] \<or> z = [newline]))"
  (is "?L \<longleftrightarrow> ?R")
proof -
  have unfolded: "?L \<longleftrightarrow>
    (\<exists>pre rest. s = pre @ rest \<and>
      (\<exists>c1 r1. rest = c1 # r1 \<and> to_lower c1 = to_lower CHR ''.'' \<and>
        (\<exists>c2 r2. r1 = c2 # r2 \<and> to_lower c2 = to_lower CHR ''e'' \<and>
          (\<exists>c3 r3. r2 = c3 # r3 \<and> to_lower c3 = to_lower CHR ''d'' \<and>
            (\<exists>c4 r4. r3 = c4 # r4 \<and> to_lower c4 = to_lower CHR ''u'' \<and>
               (r4 = [] \<or> r4 = [newline]))))))"
    unfolding re_search_iff edu_pattern_def
    by (simp only: match_here.simps(1,3) match_here_Lit lit_eq_def if_True simp_thms)
  show ?thesis
  proof
    assume ?L
    then obtain pre c1 c2 c3 c4 z where
      "s = pre @ [c1, c2, c3, c4] @ z"
      "map to_lower [c1, c2, c3, c4] = map to_lower ''.edu''" "z = [] \<or> z = [newline]"
      unfolding unfolded by auto
    then show ?R by blast
  next
    assume ?R
    then obtain pre tl z where s: "s = pre @ tl @ z"
      and tl: "map to_lower tl = map to_lower ''.edu''" and z: "z = [] \<or> z = [newline]"
      by blast
    have "length (map to_lower tl) = length tl" by simp
    with tl have "length tl = 4" by simp
    then obtain c1 c2 c3 c4 where tl4: "tl = [c1, c2, c3, c4]"
      by (auto simp: length_Suc_conv numeral_eq_Suc)
    from s tl4 have s': "s = pre @ (c1 # c2 # c3 # c4 # z)" by simp
    from tl tl4 have "to_lower c1 = to_lower CHR ''.''" "to_lower c2 = to_lower CHR ''e''"
      "to_lower c3 = to_lower CHR ''d''" "to_lower c4 = to_lower CHR ''u''"
      by simp_all
    with z have "match_here True edu_pattern (length pre) (c1 # c2 # c3 # c4 # z)"
      unfolding edu_pattern_def by (auto simp: lit_eq_def)
    with s' show ?L unfolding re_search_iff by blast
  qed
qed

lemma re_search_edu_ends_with:
  "re_search edu_pattern s True \<longleftrightarrow>
     ends_with_ci s ''.edu'' \<or> (\<exists>s'. s = s' @ [newline] \<and> ends_with_ci s' ''.edu'')"
  (is "?L \<longleftrightarrow> ?R")
proof
  assume ?L
  then obtain pre tl z where s: "s = pre @ tl @ z"
    and tl: "map to_lower tl = map to_lower ''.edu''" and z: "z = [] \<or> z = [newline]"
    unfolding re_search_edu_pattern by blast
  have e: "ends_with_ci (pre @ tl) ''.edu''"
    unfolding ends_with_ci_iff using tl by blast
  from z show ?R
  proof
    assume "z = []"
    with s e show ?R by simp
  next
    assume "z = [newline]"
    with s have "s = (pre @ tl) @ [newline]" by simp
    with e show ?R by blast
  qed
next
  assume ?R
  then show ?L
  proof
    assume "ends_with_ci s ''.edu''"
    then obtain pre tl where "s = pre @ tl @ []" "map to_lower tl = map to_lower ''.edu''"
      unfolding ends_with_ci_iff by auto
    then show ?L unfolding re_search_edu_pattern by blast
  next
    assume "\<exists>s'. s = s' @ [newline] \<and> ends_with_ci s' ''.edu''"
    then obtain pre tl where "s = pre @ tl @ [newline]" "map to_lower tl = map to_lower ''.edu''"
      unfolding ends_with_ci_iff by auto
    then show ?L unfolding re_search_edu_pattern by blast
  qed
qed

text \<open>A string of the shape ends with a letter, so not with a newline.\<close>

lemma newline_not_alpha: "\<not> in_class alpha_class newline"
  by (simp add: in_class_def alpha_class_def newline_def code_def)

lemma email_shape_last:
  assumes "email_shape s"
  shows "s \<noteq> [] \<and> in_class alpha_class (last s)"
proof -
  from assms obtain u d t where s: "s = u @ [CHR ''@''] @ d @ [CHR ''.''] @ t"
    and t: "2 \<le> length t" "list_all (in_class alpha_class) t"
    unfolding email_shape_def by blast
  from t(1) have ne: "t \<noteq> []" by auto
  with s have "last s = last t" by simp
  moreover from ne t(2) have "in_class alpha_class (last t)"
    by (simp add: list_all_iff)
  ultimately show ?thesis using s by simp
qed

lemma email_shape_no_final_newline: "email_shape s \<Longrightarrow> s \<noteq> s' @ [newline]"
  using email_shape_last [of s] newline_not_alpha by auto

lemma email_shapeI:
  assumes "re_match email_pattern s False" "last s \<noteq> newline"
  shows "email_shape s"
  using assms unfolding re_match_email_shape by auto

section \<open>Stripping\<close>




section \<open>The two models of the validator agree\<close>

text \<open>
  On a \<open>str\<close> whose code points are all below 256, the matcher on code points decides
  as the matcher on characters does.
\<close>

lemma code_less_256: "code c < 256"
  by (simp add: code_def)

lemma code_eq_iff: "code c = code d \<longleftrightarrow> c = d"
  by (simp add: code_def)

lemma in_cset_cp_code: "in_cset_cp i (code c) = in_cset i c"
  by (cases i) (simp_all add: code_eq_iff)

lemma in_class_cp_code: "in_class_cp cls (code c) = in_class cls c"
  by (simp add: in_class_cp_def in_class_def in_cset_cp_code)

lemma lower_cp_code: "lower_cp (code c) = code (to_lower c)"
proof (cases "(65 \<le> code c \<and> code c \<le> 90) \<or> (192 \<le> code c \<and> code c \<le> 222 \<and> code c \<noteq> 215)")
  case True
  then have "code c + 32 < 256" by auto
  then have again: "code (char_of (code c + 32)) = code c + 32"
    by (simp add: code_def of_char_of)
  from True have l: "lower_cp (code c) = code c + 32"
    unfolding lower_cp_def by (rule if_P)
  from True have t: "to_lower c = char_of (code c + 32)"
    unfolding to_lower_def by (rule if_P)
  show ?thesis unfolding l t again by (rule refl)
next
  case False
  then have l: "lower_cp (code c) = code c"
    unfolding lower_cp_def by (rule if_not_P)
  from False have t: "to_lower c = c"
    unfolding to_lower_def by (rule if_not_P)
  show ?thesis unfolding l t by (rule refl)
qed

lemma lit_eq_cp_code: "lit_eq_cp ic x (code c) = lit_eq ic x c"
  by (simp add: lit_eq_cp_def lit_eq_def lower_cp_code code_eq_iff)

lemma str_eq_Nil: "str s = [] \<longleftrightarrow> s = []"
  by (simp add: str_def)

lemma str_eq_single: "str s = [code c] \<longleftrightarrow> s = [c]"
  by (cases s) (auto simp: str_def code_eq_iff)

lemma takeWhile_in_class_cp_str:
  "length (takeWhile (in_class_cp cls) (str s)) = length (takeWhile (in_class cls) s)"
proof -
  have "in_class_cp cls \<circ> code = in_class cls"
    by (rule ext) (simp add: in_class_cp_code)
  then show ?thesis by (simp add: str_def takeWhile_map)
qed

lemma drop_str: "drop k (str s) = str (drop k s)"
  by (simp add: str_def drop_map)

lemma length_str: "length (str s) = length s"
  by (simp add: str_def)

lemma match_here_cp_str: "match_here_cp ic p pos (str s) = match_here ic p pos s"
proof (induction ic p pos s rule: match_here.induct)
  case (1 ic pos rest)
  show ?case by simp
next
  case (2 ic p pos rest)
  then show ?case by simp
next
  case (3 ic p pos rest)
  then show ?case by (simp add: str_eq_Nil str_eq_single)
next
  case (4 ic x p pos rest)
  show ?case
  proof (cases rest)
    case Nil
    then show ?thesis by (simp add: str_def)
  next
    case (Cons c cs)
    with 4 have "match_here_cp ic p (pos + 1) (str cs) = match_here ic p (pos + 1) cs"
      by simp
    with Cons show ?thesis by (simp add: str_def lit_eq_cp_code)
  qed
next
  case (5 ic n cls p pos rest)
  let ?ks = "rev [n ..< length (takeWhile (in_class cls) rest) + 1]"
  have "list_ex (\<lambda>k. match_here_cp ic p (pos + k) (str (drop k rest))) ?ks
      = list_ex (\<lambda>k. match_here ic p (pos + k) (drop k rest)) ?ks"
    unfolding list_ex_iff using 5 by blast
  then show ?case
    by (simp only: match_here_cp.simps match_here.simps takeWhile_in_class_cp_str drop_str)
qed

lemma re_match_cp_str: "re_match_cp p (str s) ic = re_match p s ic"
  by (simp add: re_match_cp_def re_match_def match_here_cp_str)

lemma re_search_cp_str: "re_search_cp p (str s) ic = re_search p s ic"
  by (simp only: re_search_cp_def re_search_def drop_str match_here_cp_str length_str)

text \<open>
  So, where standard output encodes every code point below 256 (as UTF-8 does), the
  function on code points gives on such a \<open>str\<close> the result of \<open>validate_edu_email\<close>.
\<close>

lemma validate_edu_email_unicode_str:
  assumes "list_all encodable [0 ..< 256]"
  shows "validate_edu_email_unicode encodable (str s) =
     (case validate_edu_email (PyStr s) of
        Inl e \<Rightarrow> Inl e
      | Inr (ok, printed) \<Rightarrow> Inr (ok, str printed))"
proof -
  have "list_all encodable (str t)" for t
    using assms code_less_256 by (auto simp: list_all_iff str_def)
  then have "py_print encodable (str t) = Inr (str t)" for t
    by (simp add: py_print_def)
  then have "print_return encodable (str t @ str s) b = Inr (b, str (t @ s))" for t b
    by (metis (no_types, lifting) map_append old.sum.simps(6) print_return_def str_def)
  then show ?thesis
    by (simp add: validate_edu_email_unicode_def re_match_cp_str re_search_cp_str)
qed

lemma utf8_below_256: "list_all utf8 [0 ..< 256]"
  by (simp add: list_all_iff utf8_def)

section \<open>When the validator raises\<close>

lemma ascii_literal_encodable:
  assumes "list_all encodable [0 ..< 128]" and "list_all (\<lambda>c. c < 128) text"
  shows "list_all encodable text"
  using assms by (auto simp: list_all_iff)

lemma print_return_encodable:
  assumes "list_all encodable [0 ..< 128]" and "list_all (\<lambda>c. c < 128) text"
    and "list_all encodable email"
  shows "print_return encodable (text @ email) b = Inr (b, text @ email)"
proof -
  from assms(1,2) have "list_all encodable text" by (rule ascii_literal_encodable)
  with assms(3) show ?thesis by (simp add: print_return_def py_print_def)
qed

lemma print_return_not_encodable:
  assumes "\<not> list_all encodable email"
  shows "print_return encodable (text @ email) b = Inl UnicodeEncodeError"
  using assms by (simp add: print_return_def py_print_def)

text \<open>
  Where standard output encodes ASCII, the function raises exactly on the strings that
  hold a code point that standard output does not encode, and what it raises is
  \<open>UnicodeEncodeError\<close>.
\<close>

lemma print_return_messages:
  assumes "list_all encodable [0 ..< 128]" and "list_all encodable email"
  shows "print_return encodable (str ''Invalid email format: '' @ email) b
           = Inr (b, str ''Invalid email format: '' @ email)"
    and "print_return encodable (str ''Email does not end with .edu: '' @ email) b
           = Inr (b, str ''Email does not end with .edu: '' @ email)"
    and "print_return encodable (str ''Valid .edu email: '' @ email) b
           = Inr (b, str ''Valid .edu email: '' @ email)"
proof -
  have 1: "list_all (\<lambda>c. c < 128) (str ''Invalid email format: '')"
    by (simp add: str_def code_def)
  have 2: "list_all (\<lambda>c. c < 128) (str ''Email does not end with .edu: '')"
    by (simp add: str_def code_def)
  have 3: "list_all (\<lambda>c. c < 128) (str ''Valid .edu email: '')"
    by (simp add: str_def code_def)
  show "print_return encodable (str ''Invalid email format: '' @ email) b
           = Inr (b, str ''Invalid email format: '' @ email)"
    using assms(1) 1 assms(2) by (rule print_return_encodable)
  show "print_return encodable (str ''Email does not end with .edu: '' @ email) b
           = Inr (b, str ''Email does not end with .edu: '' @ email)"
    using assms(1) 2 assms(2) by (rule print_return_encodable)
  show "print_return encodable (str ''Valid .edu email: '' @ email) b
           = Inr (b, str ''Valid .edu email: '' @ email)"
    using assms(1) 3 assms(2) by (rule print_return_encodable)
qed

lemma validate_raises_iff:
  assumes "list_all encodable [0 ..< 128]"
  shows "validate_edu_email_unicode encodable email = Inl UnicodeEncodeError
      \<longleftrightarrow> \<not> list_all encodable email"
proof (cases "list_all encodable email")
  case True
  then show ?thesis
    by (simp add: validate_edu_email_unicode_def print_return_messages [OF assms True])
next
  case False
  then show ?thesis
    by (simp add: validate_edu_email_unicode_def print_return_not_encodable)
qed


section \<open>Claims on the validator\<close>

text \<open>
  C1. The design notes at the head of the source make the empty string the first test:
  it is to print \<open>Empty email address\<close> and return false. The function has no such
  test. The empty string fails the match against \<open>email_pattern\<close>, so the function
  returns false after printing \<open>Invalid email format: \<close> followed by the (empty) input.
\<close>

theorem validate_empty_is_format_error:
  "validate_edu_email (PyStr []) = Inr (False, ''Invalid email format: '')"
  by code_simp

text \<open>
  C4. Every string of the email shape that does not end with \<open>.edu\<close>, in any letter
  case, is rejected with the second message, \<open>Email does not end with .edu: \<close>
  followed by the string.
\<close>

theorem validate_not_edu:
  assumes "email_shape s" and "\<not> ends_with_ci s ''.edu''"
  shows "validate_edu_email (PyStr s) = Inr (False, ''Email does not end with .edu: '' @ s)"
proof -
  from assms(1) have m: "re_match email_pattern s False"
    unfolding re_match_email_shape by simp
  have "\<not> re_search edu_pattern s True"
    unfolding re_search_edu_ends_with
    using assms email_shape_no_final_newline [of s] by blast
  with m show ?thesis by simp
qed

theorem validate_not_edu_witness:
  "email_shape ''student@school.com'' \<and> \<not> ends_with_ci ''student@school.com'' ''.edu''
   \<and> validate_edu_email (PyStr ''student@school.com'')
       = Inr (False, ''Email does not end with .edu: student@school.com'')
   \<and> email_shape ''a@b.education'' \<and> \<not> ends_with_ci ''a@b.education'' ''.edu''
   \<and> validate_edu_email (PyStr ''a@b.education'')
       = Inr (False, ''Email does not end with .edu: a@b.education'')"
proof -
  have s1: "email_shape ''student@school.com''"
    by (rule email_shapeI) (code_simp, simp add: newline_def)
  have e1: "\<not> ends_with_ci ''student@school.com'' ''.edu''" by code_simp
  have s2: "email_shape ''a@b.education''"
    by (rule email_shapeI) (code_simp, simp add: newline_def)
  have e2: "\<not> ends_with_ci ''a@b.education'' ''.edu''" by code_simp
  show ?thesis
    using s1 e1 s2 e2 validate_not_edu [OF s1 e1] validate_not_edu [OF s2 e2] by simp
qed

text \<open>
  C5. Every string of the email shape that ends with \<open>.edu\<close>, in any letter case, is
  accepted: the function returns true after printing \<open>Valid .edu email: \<close> followed by
  the string.
\<close>

theorem validate_edu:
  assumes "email_shape s" and "ends_with_ci s ''.edu''"
  shows "validate_edu_email (PyStr s) = Inr (True, ''Valid .edu email: '' @ s)"
proof -
  from assms(1) have "re_match email_pattern s False"
    unfolding re_match_email_shape by simp
  moreover from assms(2) have "re_search edu_pattern s True"
    unfolding re_search_edu_ends_with by simp
  ultimately show ?thesis by simp
qed

theorem validate_edu_witness:
  "email_shape ''student@university.edu'' \<and> ends_with_ci ''student@university.edu'' ''.edu''
   \<and> validate_edu_email (PyStr ''student@university.edu'')
       = Inr (True, ''Valid .edu email: student@university.edu'')
   \<and> email_shape ''STUDENT@SCHOOL.EDU'' \<and> ends_with_ci ''STUDENT@SCHOOL.EDU'' ''.edu''
   \<and> validate_edu_email (PyStr ''STUDENT@SCHOOL.EDU'')
       = Inr (True, ''Valid .edu email: STUDENT@SCHOOL.EDU'')"
proof -
  have s1: "email_shape ''student@university.edu''"
    by (rule email_shapeI) (code_simp, simp add: newline_def)
  have e1: "ends_with_ci ''student@university.edu'' ''.edu''" by code_simp
  have s2: "email_shape ''STUDENT@SCHOOL.EDU''"
    by (rule email_shapeI) (code_simp, simp add: newline_def)
  have e2: "ends_with_ci ''STUDENT@SCHOOL.EDU'' ''.edu''" by code_simp
  show ?thesis
    using s1 e1 s2 e2 validate_edu [OF s1 e1] validate_edu [OF s2 e2] by simp
qed

text \<open>
  What does hold of the first test: a string that is neither of the email shape nor such
  a string followed by one newline is rejected with the first message.
\<close>

lemma validate_format_error:
  assumes "\<not> email_shape s" and "\<forall>s'. s = s' @ [newline] \<longrightarrow> \<not> email_shape s'"
  shows "validate_edu_email (PyStr s) = Inr (False, ''Invalid email format: '' @ s)"
proof -
  from assms have "\<not> re_match email_pattern s False"
    unfolding re_match_email_shape by blast
  then show ?thesis by simp
qed

lemma validate_not_an_email:
  "validate_edu_email (PyStr ''not-an-email'')
     = Inr (False, ''Invalid email format: not-an-email'')"
  by code_simp

text \<open>
  C6. A string that is not of the email shape is to be rejected with
  \<open>Invalid email format\<close>. The string \<open>a@b.edu\<close> followed by a newline is not of the
  shape (its last character is no letter), yet the function accepts it: \<open>$\<close> in both
  patterns matches before the final newline. The function's own documentation promises
  true only for an email that is valid and ends with \<open>.edu\<close>.
\<close>

theorem validate_accepts_final_newline:
  "\<not> email_shape (''a@b.edu'' @ [newline])
   \<and> validate_edu_email (PyStr (''a@b.edu'' @ [newline]))
       = Inr (True, ''Valid .edu email: a@b.edu'' @ [newline])"
proof -
  have "\<not> email_shape (''a@b.edu'' @ [newline])"
    using email_shape_no_final_newline by blast
  moreover have "validate_edu_email (PyStr (''a@b.edu'' @ [newline]))
       = Inr (True, ''Valid .edu email: a@b.edu'' @ [newline])"
    by code_simp
  ultimately show ?thesis by simp
qed





text \<open>
  C10. The domain class \<open>[a-zA-Z0-9.-]+\<close> does not constrain where dots stand: the
  function accepts \<open>a@b..edu\<close> (two dots in a row) and \<open>a@.b.edu\<close> (a leading dot).
\<close>

theorem validate_accepts_misplaced_dots:
  "validate_edu_email (PyStr ''a@b..edu'') = Inr (True, ''Valid .edu email: a@b..edu'')
   \<and> validate_edu_email (PyStr ''a@.b.edu'') = Inr (True, ''Valid .edu email: a@.b.edu'')"
  by code_simp

section \<open>Claims on the image store\<close>

text \<open>Without a row of the name, a retrieve that reaches the server ends in \<open>TypeError\<close>.\<close>

lemma retrieve_image_no_row:
  assumes "db_up w" and "\<forall>r \<in> set (image_store w). image_name r \<noteq> name"
  shows "retrieve_image name out w = (Some TypeError, w)"
proof -
  from assms(2) have "filter (\<lambda>r. image_name r = name) (image_store w) = []"
    by (simp add: filter_empty_conv)
  with assms(1) show ?thesis by (simp add: retrieve_image_def)
qed

text \<open>
  C2. Retrieving a name that has no row is to give a not-found error and no crash. The
  script subscripts the result of \<open>fetchone\<close> without a test: on the empty table the
  run ends with the \<open>TypeError\<close> of \<open>None[0]\<close>, before anything is written.
\<close>

theorem retrieve_without_row_raises_TypeError:
  "retrieve_script empty_store = (Some TypeError, empty_store)"
  by (simp add: retrieve_script_def retrieve_image_def empty_store_def)

text \<open>
  With a row of the name already in the table, the retrieve after a store finds two rows:
  it writes the file, prints, and ends with \<open>InternalError\<close> at \<open>cursor.close()\<close>.
\<close>

lemma retrieve_after_duplicate_store:
  "fst (retrieve_script (snd (upload_script stale_store))) = Some InternalError"
  by (simp add: upload_script_def retrieve_script_def store_image_def retrieve_image_def
      stale_store_def)

text \<open>
  C3, as stated, fails where the table already holds a row of the same name: the
  \<open>INSERT\<close> adds a second row, and \<open>fetchone\<close> returns the first. The store runs
  to its end, and the file that the retrieve writes holds the old bytes \<open>[1]\<close>, not the
  bytes \<open>[2]\<close> that were stored.
\<close>

theorem roundtrip_counterexample:
  "files stale_store ''path_to_your_image.jpg'' = Some [2]
   \<and> fst (upload_script stale_store) = None
   \<and> files (snd (retrieve_script (snd (upload_script stale_store)))) ''retrieved_image.jpg''
       = Some [1]
   \<and> files (snd (retrieve_script (snd (upload_script stale_store)))) ''retrieved_image.jpg''
       \<noteq> files stale_store ''path_to_your_image.jpg''"
  by (simp add: upload_script_def retrieve_script_def store_image_def retrieve_image_def
      stale_store_def)

text \<open>
  C3, amended. When the table holds no row named \<open>N\<close> before the store, the server can
  be reached, the input file holds \<open>B\<close> (empty or not) and the output path can be
  written, then both operations run to their end and the output file holds exactly \<open>B\<close>.
\<close>

theorem roundtrip_fresh_name:
  assumes "db_up w" and "files w path = Some B"
    and "\<forall>r \<in> set (image_store w). image_name r \<noteq> N"
    and "writable w out"
  shows "fst (store_image path N w) = None
    \<and> fst (retrieve_image N out (snd (store_image path N w))) = None
    \<and> files (snd (retrieve_image N out (snd (store_image path N w)))) out = Some B"
proof -
  from assms(3) have no_row: "\<not> list_ex (\<lambda>r. image_name r = N) (image_store w)"
    by (simp add: list_ex_iff)
  define w1 where
    "w1 = w\<lparr>image_store := image_store w @ [\<lparr>image_name = N, image_data = B\<rparr>],
            stdout := stdout w @ [''Image uploaded successfully.'']\<rparr>"
  from assms(1,2) no_row have stored: "store_image path N w = (None, w1)"
    by (simp add: store_image_def w1_def)
  from assms(3) have "filter (\<lambda>r. image_name r = N) (image_store w) = []"
    by (simp add: filter_empty_conv)
  then have "filter (\<lambda>r. image_name r = N) (image_store w1)
      = [\<lparr>image_name = N, image_data = B\<rparr>]"
    by (simp add: w1_def)
  moreover have "db_up w1" "writable w1 out"
    using assms(1,4) by (simp_all add: w1_def)
  ultimately have "retrieve_image N out w1 =
      (None, w1\<lparr>files := (files w1)(out \<mapsto> B),
                stdout := stdout w1 @ [''Image retrieved and written to file.'']\<rparr>)"
    by (simp add: retrieve_image_def Let_def)
  with stored show ?thesis by simp
qed

theorem roundtrip_fresh_name_witness:
  "db_up fresh_store
   \<and> files fresh_store ''path_to_your_image.jpg'' = Some [0xFF, 0xD8, 0xFF]
   \<and> writable fresh_store ''retrieved_image.jpg''
   \<and> fst (upload_script fresh_store) = None
   \<and> fst (retrieve_script (snd (upload_script fresh_store))) = None
   \<and> files (snd (retrieve_script (snd (upload_script fresh_store)))) ''retrieved_image.jpg''
       = Some [0xFF, 0xD8, 0xFF]"
proof -
  have h1: "db_up fresh_store"
    by (simp add: fresh_store_def empty_store_def)
  have h2: "files fresh_store ''path_to_your_image.jpg'' = Some [0xFF, 0xD8, 0xFF]"
    by (simp add: fresh_store_def empty_store_def)
  have h3: "\<forall>r \<in> set (image_store fresh_store). image_name r \<noteq> ''example.jpg''"
    by (simp add: fresh_store_def empty_store_def)
  have h4: "writable fresh_store ''retrieved_image.jpg''"
    by (simp add: fresh_store_def empty_store_def)
  show ?thesis
    using h1 h2 h4 roundtrip_fresh_name [OF h1 h2 h3 h4]
    by (simp add: upload_script_def retrieve_script_def)
qed

text \<open>
  C8. A store that runs to its end leaves the table as it was with one row added at the
  end, the row of the given name and the bytes of the file; a store that ends with an
  exception leaves the table as it was. A retrieve, however it ends, leaves the table as
  it was.
\<close>

theorem table_frame:
  "(fst (store_image path N w) = None \<longrightarrow>
      (\<exists>B. files w path = Some B
         \<and> image_store (snd (store_image path N w))
             = image_store w @ [\<lparr>image_name = N, image_data = B\<rparr>]))
   \<and> (fst (store_image path N w) \<noteq> None \<longrightarrow>
        image_store (snd (store_image path N w)) = image_store w)
   \<and> image_store (snd (retrieve_image N out w)) = image_store w"
proof (intro conjI impI)
  assume "fst (store_image path N w) = None"
  then show "\<exists>B. files w path = Some B
         \<and> image_store (snd (store_image path N w))
             = image_store w @ [\<lparr>image_name = N, image_data = B\<rparr>]"
    by (auto simp: store_image_def split: if_splits option.splits)
next
  assume "fst (store_image path N w) \<noteq> None"
  then show "image_store (snd (store_image path N w)) = image_store w"
    by (auto simp: store_image_def split: if_splits option.splits)
next
  show "image_store (snd (retrieve_image N out w)) = image_store w"
    by (simp add: retrieve_image_def Let_def split: option.splits)
qed

theorem table_frame_witness:
  "fst (upload_script stale_store) = None
   \<and> image_store (snd (upload_script stale_store))
       = image_store stale_store @ [\<lparr>image_name = ''example.jpg'', image_data = [2]\<rparr>]
   \<and> fst (upload_script empty_store) \<noteq> None
   \<and> image_store (snd (upload_script empty_store)) = image_store empty_store
   \<and> image_store (snd (retrieve_script stale_store)) = image_store stale_store"
proof -
  have ok: "fst (store_image ''path_to_your_image.jpg'' ''example.jpg'' stale_store) = None"
    by (simp add: store_image_def stale_store_def)
  have src: "files stale_store ''path_to_your_image.jpg'' = Some [2]"
    by (simp add: stale_store_def)
  have failed: "fst (store_image ''path_to_your_image.jpg'' ''example.jpg'' empty_store) \<noteq> None"
    by (simp add: store_image_def empty_store_def)
  show ?thesis
    using ok src failed
      table_frame [of "''path_to_your_image.jpg''" "''example.jpg''" stale_store
        "''retrieved_image.jpg''"]
      table_frame [of "''path_to_your_image.jpg''" "''example.jpg''" empty_store
        "''retrieved_image.jpg''"]
    by (simp add: upload_script_def retrieve_script_def)
qed

end
